theory Spec2Isabelle
  imports Main "HOL-Library.Word" "HOL-Library.Sublist"
begin

unbundle bit_operations_syntax

section \<open>The crawler of \<open>main.go\<close>: data model\<close>

text \<open>
  Go strings are byte sequences: \<open>string\<close> (a list of 8-bit characters). Go's \<open>int\<close> is
  64 bits wide and wraps around. \<open>totalQueued\<close> grows with every \<open>enqueue\<close> for the
  life of the queue, whatever is dequeued in between, so it is a 64-bit word: \<open>+\<close> on
  it wraps, and \<open>sint\<close> reads it as the signed value Go sees. \<open>Queue.number\<close> is kept
  equal to the length of the slice \<open>elements\<close> by \<open>enqueue\<close> and \<open>dequeue\<close>, and the
  length of a Go slice is itself an \<open>int\<close>, so this counter cannot wrap before the slice
  does; it is an \<open>int\<close>, next to the list that stands for the slice.
  \<open>CrawledSet.number\<close> is an \<open>int\<close> as well: what is stated about it are the increments
  of \<open>add\<close>, which read the same in wrap-around arithmetic, and the ceiling of 500 that
  \<open>main\<close> keeps it under. The mutexes of \<open>Queue\<close> and \<open>CrawledSet\<close> make every method one
  atomic step; a method is modelled as a function from the state before the call to
  the state after it.
\<close>

record Queue =
  totalQueued :: "64 word"
  number :: int
  elements :: "string list"

record CrawledSet =
  data :: "64 word \<rightharpoonup> bool"
  number :: int

text \<open>
  How a call ends when it does not return normally. \<open>IndexOutOfRange\<close> is the Go runtime
  panic of an out-of-range slice index: nothing in the program recovers from it, so it
  ends the process. \<open>EmptyFrontier\<close> is an error value a caller could test for; no
  statement of \<open>main.go\<close> produces it (\<open>dequeue\<close> has the result type \<open>string\<close> only).
\<close>

datatype failure = IndexOutOfRange | EmptyFrontier

subsection \<open>Queue\<close>

definition enqueue :: "Queue \<Rightarrow> string \<Rightarrow> Queue" where
  "enqueue q url =
     q\<lparr>elements := elements q @ [url],
       totalQueued := totalQueued q + 1,
       Queue.number := Queue.number q + 1\<rparr>"

text \<open>\<open>url := q.elements[0]\<close> panics on an empty slice, before anything is changed.\<close>

definition dequeue :: "Queue \<Rightarrow> failure + (string \<times> Queue)" where
  "dequeue q =
     (case elements q of
        [] \<Rightarrow> Inl IndexOutOfRange
      | url # rest \<Rightarrow> Inr (url, q\<lparr>elements := rest, Queue.number := Queue.number q - 1\<rparr>))"

definition size_queue :: "Queue \<Rightarrow> int" where
  "size_queue q = Queue.number q"

text \<open>The queue \<open>main\<close> starts with: \<open>Queue{totalQueued: 0, number: 0, elements: make([]string, 0)}\<close>.\<close>

definition new_queue :: Queue where
  "new_queue = \<lparr>totalQueued = 0, number = 0, elements = []\<rparr>"




subsection \<open>CrawledSet\<close>

text \<open>
  \<open>hash/fnv\<close>'s \<open>New64a\<close>: 64-bit FNV-1a. The state starts at the offset basis; every byte
  is XOR-ed into it and the result multiplied by the FNV prime, in 64-bit wrap-around arithmetic.
\<close>

definition hashUrl :: "string \<Rightarrow> 64 word" where
  "hashUrl url =
     foldl (\<lambda>h c. (h XOR of_char c) * 1099511628211) 14695981039346656037 url"

definition add :: "CrawledSet \<Rightarrow> string \<Rightarrow> CrawledSet" where
  "add c url =
     c\<lparr>data := (data c)(hashUrl url \<mapsto> True),
       CrawledSet.number := CrawledSet.number c + 1\<rparr>"

text \<open>Reading a Go \<open>map[uint64]bool\<close> at a missing key gives \<open>false\<close>.\<close>

definition contains :: "CrawledSet \<Rightarrow> string \<Rightarrow> bool" where
  "contains c url = (case data c (hashUrl url) of None \<Rightarrow> False | Some b \<Rightarrow> b)"

definition size_crawled :: "CrawledSet \<Rightarrow> int" where
  "size_crawled c = CrawledSet.number c"

text \<open>The set \<open>main\<close> starts with: \<open>CrawledSet{data: make(map[uint64]bool)}\<close>.\<close>

definition new_crawled :: CrawledSet where
  "new_crawled = \<lparr>data = Map.empty, number = 0\<rparr>"

datatype crawled_call = AddCall string | ContainsCall string | SizeCall

fun crawled_step :: "CrawledSet \<Rightarrow> crawled_call \<Rightarrow> CrawledSet" where
  "crawled_step c (AddCall url) = add c url"
| "crawled_step c (ContainsCall url) = c"
| "crawled_step c SizeCall = c"

definition crawled_calls :: "crawled_call list \<Rightarrow> CrawledSet \<Rightarrow> CrawledSet" where
  "crawled_calls cs c = foldl crawled_step c cs"

section \<open>Robots filter\<close>

text \<open>The functions of Go's \<open>strings\<close> package that the program calls.\<close>

definition HasPrefix :: "string \<Rightarrow> string \<Rightarrow> bool" where
  "HasPrefix s pre = (take (length pre) s = pre)"

definition HasSuffix :: "string \<Rightarrow> string \<Rightarrow> bool" where
  "HasSuffix s suf = (drop (length s - length suf) s = suf)"

definition TrimSuffix :: "string \<Rightarrow> string \<Rightarrow> string" where
  "TrimSuffix s suf = (if HasSuffix s suf then take (length s - length suf) s else s)"

fun Contains :: "string \<Rightarrow> string \<Rightarrow> bool" where
  "Contains [] substr = (substr = [])"
| "Contains (c # s) substr = (HasPrefix (c # s) substr \<or> Contains s substr)"

text \<open>
  The package variables \<open>host\<close> and \<open>disabledLinks\<close>. \<open>host\<close> is never assigned;
  \<open>disabledLinks\<close> is appended to by \<open>robotsTxtFetcher\<close> and read by \<open>isAllowed\<close>, so it is
  passed to both.
\<close>

definition host :: string where
  "host = ''https://www.sjsu.edu/''"

text \<open>\<open>isAllowed\<close>: the \<open>for ... range disabledLinks\<close> loop, returning at the first hit.\<close>

fun isAllowed :: "string list \<Rightarrow> string \<Rightarrow> bool" where
  "isAllowed [] url = True"
| "isAllowed (disallowed # disabledLinks) url =
     (if Contains url disallowed then False else isAllowed disabledLinks url)"

text \<open>
  \<open>robotsTxtFetcher\<close>. The answer of the server is \<open>None\<close> when \<open>http.NewRequest\<close> or
  \<open>client.Do\<close> returns an error (the function then returns at once) and the body
  otherwise, whatever the status. The line scanner (\<open>bufio.Scanner\<close>) and
  \<open>strings.Fields\<close> are library code and are parameters here.
\<close>

definition robots_line :: "(string \<Rightarrow> string list) \<Rightarrow> string list \<Rightarrow> string \<Rightarrow> string list" where
  "robots_line Fields disabledLinks line =
     (if Contains line ''Disallow:'' then
        (let fields = Fields line in
         if 2 \<le> length fields then disabledLinks @ [fields ! 1] else disabledLinks)
      else disabledLinks)"

definition robotsTxtFetcher ::
  "(string \<Rightarrow> string list) \<Rightarrow> (string \<Rightarrow> string list) \<Rightarrow> string option \<Rightarrow> string list \<Rightarrow> string list" where
  "robotsTxtFetcher scan Fields answer disabledLinks =
     (case answer of
        None \<Rightarrow> disabledLinks
      | Some robotsTxt \<Rightarrow> foldl (robots_line Fields) disabledLinks (scan robotsTxt))"

section \<open>Output sink\<close>

text \<open>
  \<open>result.txt\<close> is \<open>None\<close> while the file does not exist and its content otherwise;
  \<open>logged\<close> collects the messages \<open>writeToFile\<close> hands to \<open>printError\<close>. \<open>os.OpenFile\<close> is called with
  \<open>O_APPEND|O_WRONLY\<close> only: on a missing file it returns a nil file and an error, the
  later \<open>Fprintf\<close> on the nil file returns an error as well (no panic), and both are
  logged. Other faults of the file system (permissions, a full disk) are not modelled.
\<close>

record Sink =
  result_txt :: "string option"
  logged :: "string list"

definition record_block :: "string \<Rightarrow> string \<Rightarrow> string" where
  "record_block title currUrl =
     ''{'' @ [CHR 0x0A, CHR 0x09] @ ''title: '' @ title @ '','' @
     [CHR 0x0A, CHR 0x09] @ ''url: '' @ currUrl @ [CHR 0x0A] @ ''}''"

text \<open>The messages of the two \<open>printError\<close> calls of a failed write.\<close>

definition write_errors :: "string list" where
  "write_errors = [''Error at line 192'' @ [CHR 0x09], ''Error at line 198'' @ [CHR 0x09]]"

definition writeToFile :: "string \<Rightarrow> string \<Rightarrow> Sink \<Rightarrow> Sink" where
  "writeToFile title currUrl fs =
     (case result_txt fs of
        None \<Rightarrow> fs\<lparr>logged := logged fs @ write_errors\<rparr>
      | Some content \<Rightarrow> fs\<lparr>result_txt := Some (content @ record_block title currUrl)\<rparr>)"

section \<open>Fetcher\<close>

text \<open>
  What the program reads of a \<open>goquery.Document\<close>: the \<open>href\<close> values of the elements
  matching \<open>a[href]\<close>, in document order, and the text of the \<open>title\<close> elements.
\<close>

record Document =
  hrefs :: "string list"
  title :: string

text \<open>The result of one \<open>client.Do\<close>: an error, or a response with status code and body.\<close>

datatype response = TransportError | Status nat string

text \<open>
  How \<open>fetcher\<close> ends: it sends a document or nil on its channel, or \<open>log.Fatal\<close> ends
  the process (the body of a 200 response could not be parsed).
\<close>

datatype fetch_outcome = Delivered "Document option" | Fatal

text \<open>
  The loop \<open>for i := range 5\<close>, from iteration \<open>i\<close> on, with \<open>n\<close> calls of \<open>client.Do\<close>
  made so far. \<open>request_ok\<close> tells whether \<open>http.NewRequest\<close> succeeds for the URL,
  \<open>client_Do n\<close> is the result of the call number \<open>n\<close> (from 0), \<open>parse\<close> is
  \<open>goquery.NewDocumentFromReader\<close>. The result is the outcome and the number of calls of
  \<open>client.Do\<close>. The sleep before a retry takes time only and is left out.
\<close>

function fetcher_from ::
  "(string \<Rightarrow> Document option) \<Rightarrow> bool \<Rightarrow> (nat \<Rightarrow> response) \<Rightarrow> nat \<Rightarrow> nat \<Rightarrow> fetch_outcome \<times> nat" where
  "fetcher_from parse request_ok client_Do i n =
     (if 5 \<le> i then (Delivered None, n)
      else if \<not> request_ok then fetcher_from parse request_ok client_Do (i + 1) n
      else
        (case client_Do n of
           TransportError \<Rightarrow> fetcher_from parse request_ok client_Do (i + 1) (n + 1)
         | Status code body \<Rightarrow>
             if code = 200 then
               (case parse body of
                  None \<Rightarrow> (Fatal, n + 1)
                | Some doc \<Rightarrow> (Delivered (Some doc), n + 1))
             else fetcher_from parse request_ok client_Do (i + 1) (n + 1)))"
  by pat_completeness auto
termination
  by (relation "measure (\<lambda>(parse, request_ok, client_Do, i, n). 5 - i)") auto

definition fetcher ::
  "(string \<Rightarrow> Document option) \<Rightarrow> bool \<Rightarrow> (nat \<Rightarrow> response) \<Rightarrow> fetch_outcome \<times> nat" where
  "fetcher parse request_ok client_Do = fetcher_from parse request_ok client_Do 0 0"

section \<open>Link extraction\<close>

text \<open>
  The function passed to \<open>Each\<close> in \<open>parser\<close>, for one \<open>href\<close>. \<open>parser_href\<close> is the part
  before the admission test: \<open>None\<close> where the function returns early, the rewritten
  \<open>href\<close> otherwise. \<open>admitted\<close> is the condition of the last \<open>if\<close>.
\<close>

definition parser_href :: "string \<Rightarrow> string option" where
  "parser_href href =
     (if HasPrefix href ''#'' \<or> HasPrefix href ''javascript:'' \<or> HasPrefix href ''mailto:''
      then None
      else if HasPrefix href ''/'' then Some (TrimSuffix host ''/'' @ href)
      else if \<not> HasPrefix href ''http'' then None
      else Some href)"

definition admitted :: "string list \<Rightarrow> CrawledSet \<Rightarrow> string \<Rightarrow> bool" where
  "admitted disabledLinks crawledSet href =
     (HasPrefix href host \<and> isAllowed disabledLinks href \<and> \<not> contains crawledSet href)"

definition parser_each :: "string list \<Rightarrow> CrawledSet \<Rightarrow> Queue \<Rightarrow> string \<Rightarrow> Queue" where
  "parser_each disabledLinks crawledSet queue href =
     (case parser_href href of
        None \<Rightarrow> queue
      | Some href' \<Rightarrow>
          if admitted disabledLinks crawledSet href' then enqueue queue href' else queue)"

text \<open>
  \<open>parser\<close>, run without interference from another thread (as for the seed page):
  every \<open>href\<close> in turn, then the page record.
\<close>

definition parser ::
  "string list \<Rightarrow> Document \<Rightarrow> Queue \<Rightarrow> string \<Rightarrow> CrawledSet \<Rightarrow> Sink \<Rightarrow> Queue \<times> Sink" where
  "parser disabledLinks doc queue currUrl crawledSet fs =
     (foldl (parser_each disabledLinks crawledSet) queue (hrefs doc),
      writeToFile (title doc) currUrl fs)"

section \<open>The crawl loop of \<open>main\<close>\<close>

text \<open>
  The world outside the program: whether \<open>http.NewRequest\<close> accepts a URL, what the
  request number \<open>n\<close> of the fetch number \<open>k\<close> of the run returns for a URL, and the
  HTML parser.
\<close>

record World =
  web_request_ok :: "string \<Rightarrow> bool"
  web_answer :: "nat \<Rightarrow> string \<Rightarrow> nat \<Rightarrow> response"
  web_parse :: "string \<Rightarrow> Document option"

text \<open>
  \<open>main\<close> starts every extraction with \<open>go func(doc, url) { parser(...) }\<close> and does not
  wait for it before the next iteration, so the extractions run interleaved with the
  loop and with each other. Every method of \<open>Queue\<close> and \<open>CrawledSet\<close> and every
  \<open>writeToFile\<close> holds a mutex, so an execution is a sequence of atomic steps, each
  taken by the main thread or by one running extraction.

  An extraction is at some \<open>href\<close> of its document (\<open>todo\<close>); between the admission
  test and the \<open>enqueue\<close> it holds the admitted URL (\<open>checked\<close>).
\<close>

record task =
  todo :: "string list"
  checked :: "string option"
  page_title :: string
  page_url :: string

text \<open>
  Where the main thread is: at the two tests of the loop condition, at \<open>dequeue\<close>, at
  \<open>crawled.add(url)\<close>, waiting for the fetcher of \<open>url\<close>, at \<open>wg.Wait()\<close>, or the process
  has ended: \<open>main\<close> returned (\<open>Finished\<close>), \<open>log.Fatal\<close> (\<open>Exited\<close>), or a panic
  (\<open>Crashed\<close>).
\<close>

datatype control =
  AtLoop | AtCeiling | AtDequeue | AtAdd string | AtFetch string | AtWait
  | Finished | Exited | Crashed

text \<open>
  \<open>fetches\<close> lists the URLs handed to \<open>fetcher\<close> so far; \<open>dispatched\<close> counts the
  extractions started (\<open>wg.Add(1)\<close>) in the current iteration of the loop. Neither is a
  variable of the program. The statistics goroutine only reads the two sizes and is
  left out.
\<close>

record crawl =
  queue :: Queue
  crawled :: CrawledSet
  sink :: Sink
  tasks :: "task list"
  control :: control
  fetches :: "string list"
  dispatched :: nat

definition task_step :: "string list \<Rightarrow> nat \<Rightarrow> crawl \<Rightarrow> crawl" where
  "task_step disabledLinks k s =
     (let t = tasks s ! k in
      case checked t of
        Some href \<Rightarrow>
          s\<lparr>queue := enqueue (queue s) href, tasks := (tasks s)[k := t\<lparr>checked := None\<rparr>]\<rparr>
      | None \<Rightarrow>
          (case todo t of
             [] \<Rightarrow>
               s\<lparr>sink := writeToFile (page_title t) (page_url t) (sink s),
                 tasks := take k (tasks s) @ drop (Suc k) (tasks s)\<rparr>
           | href # rest \<Rightarrow>
               (case parser_href href of
                  None \<Rightarrow> s\<lparr>tasks := (tasks s)[k := t\<lparr>todo := rest\<rparr>]\<rparr>
                | Some href' \<Rightarrow>
                    if admitted disabledLinks (crawled s) href'
                    then s\<lparr>tasks := (tasks s)[k := t\<lparr>todo := rest, checked := Some href'\<rparr>]\<rparr>
                    else s\<lparr>tasks := (tasks s)[k := t\<lparr>todo := rest\<rparr>]\<rparr>)))"

definition main_step :: "World \<Rightarrow> crawl \<Rightarrow> crawl option" where
  "main_step W s =
     (case control s of
        AtLoop \<Rightarrow>
          Some (s\<lparr>control := (if 0 < size_queue (queue s) then AtCeiling else AtWait)\<rparr>)
      | AtCeiling \<Rightarrow>
          Some (s\<lparr>control := (if size_crawled (crawled s) < 500 then AtDequeue else AtWait)\<rparr>)
      | AtDequeue \<Rightarrow>
          (case dequeue (queue s) of
             Inl e \<Rightarrow> Some (s\<lparr>control := Crashed\<rparr>)
           | Inr (url, q') \<Rightarrow> Some (s\<lparr>queue := q', control := AtAdd url, dispatched := 0\<rparr>))
      | AtAdd url \<Rightarrow> Some (s\<lparr>crawled := add (crawled s) url, control := AtFetch url\<rparr>)
      | AtFetch url \<Rightarrow>
          (case fst (fetcher (web_parse W) (web_request_ok W url)
                       (web_answer W (length (fetches s)) url)) of
             Fatal \<Rightarrow> Some (s\<lparr>fetches := fetches s @ [url], control := Exited\<rparr>)
           | Delivered None \<Rightarrow> Some (s\<lparr>fetches := fetches s @ [url], control := AtLoop\<rparr>)
           | Delivered (Some doc) \<Rightarrow>
               Some (s\<lparr>fetches := fetches s @ [url],
                       tasks := tasks s @
                         [\<lparr>todo = hrefs doc, checked = None, page_title = title doc, page_url = url\<rparr>],
                       dispatched := dispatched s + 1,
                       control := AtLoop\<rparr>))
      | AtWait \<Rightarrow> if tasks s = [] then Some (s\<lparr>control := Finished\<rparr>) else None
      | Finished \<Rightarrow> None
      | Exited \<Rightarrow> None
      | Crashed \<Rightarrow> None)"

text \<open>
  One atomic step, by the main thread or by the running extraction number \<open>k\<close>;
  \<open>None\<close> when that thread cannot move (it does not exist, it is blocked in
  \<open>wg.Wait()\<close>, or the process has ended).
\<close>

datatype move = MainThread | Extraction nat

definition ended :: "crawl \<Rightarrow> bool" where
  "ended s = (control s = Finished \<or> control s = Exited \<or> control s = Crashed)"

definition step :: "World \<Rightarrow> string list \<Rightarrow> move \<Rightarrow> crawl \<Rightarrow> crawl option" where
  "step W disabledLinks m s =
     (if ended s then None
      else
        (case m of
           MainThread \<Rightarrow> main_step W s
         | Extraction k \<Rightarrow>
             if k < length (tasks s) then Some (task_step disabledLinks k s) else None))"

fun run :: "World \<Rightarrow> string list \<Rightarrow> move list \<Rightarrow> crawl \<Rightarrow> crawl option" where
  "run W disabledLinks [] s = Some s"
| "run W disabledLinks (m # ms) s =
     (case step W disabledLinks m s of
        None \<Rightarrow> None
      | Some s' \<Rightarrow> run W disabledLinks ms s')"

text \<open>
  \<open>main\<close> up to the loop: the empty queue, the seed marked as crawled, the seed fetched
  and, when a document came back, parsed by the main thread itself.
\<close>

definition seeding :: "World \<Rightarrow> string list \<Rightarrow> Sink \<Rightarrow> crawl" where
  "seeding W disabledLinks fs =
     (let crawled0 = add new_crawled host;
          s0 = \<lparr>queue = new_queue, crawled = crawled0, sink = fs, tasks = [],
                control = AtLoop, fetches = [host], dispatched = 0\<rparr>
      in
        case fst (fetcher (web_parse W) (web_request_ok W host) (web_answer W 0 host)) of
          Fatal \<Rightarrow> s0\<lparr>control := Exited\<rparr>
        | Delivered None \<Rightarrow> s0
        | Delivered (Some content) \<Rightarrow>
            (case parser disabledLinks content new_queue host crawled0 fs of
               (q, fs') \<Rightarrow> s0\<lparr>queue := q, sink := fs'\<rparr>))"

section \<open>Vocabulary of the properties\<close>

text \<open>A response with status 200, the only one \<open>fetcher\<close> accepts.\<close>

fun is_200 :: "response \<Rightarrow> bool" where
  "is_200 TransportError = False"
| "is_200 (Status code body) = (code = 200)"

text \<open>
  The invariant of the loop behind the ceiling: the count never passes 500, it is
  below 500 from the successful ceiling test up to \<open>crawled.add\<close>, and the queue counter
  is positive from the successful queue test up to \<open>dequeue\<close>.
\<close>

fun before_add :: "control \<Rightarrow> bool" where
  "before_add AtDequeue = True"
| "before_add (AtAdd url) = True"
| "before_add c = False"

definition within_ceiling :: "crawl \<Rightarrow> bool" where
  "within_ceiling s \<longleftrightarrow>
     size_crawled (crawled s) \<le> 500 \<and>
     (before_add (control s) \<longrightarrow> size_crawled (crawled s) < 500) \<and>
     ((control s = AtCeiling \<or> control s = AtDequeue) \<longrightarrow> 0 < size_queue (queue s))"

text \<open>
  The invariant behind domain containment: every URL in the queue, and every URL an
  extraction holds between its admission test and its \<open>enqueue\<close>, starts with \<open>host\<close>
  and is allowed.
\<close>

definition admissible :: "string list \<Rightarrow> string \<Rightarrow> bool" where
  "admissible disabledLinks url \<longleftrightarrow> HasPrefix url host \<and> isAllowed disabledLinks url"

definition frontier_admissible :: "string list \<Rightarrow> crawl \<Rightarrow> bool" where
  "frontier_admissible disabledLinks s \<longleftrightarrow>
     (\<forall>url\<in>set (elements (queue s)). admissible disabledLinks url) \<and>
     (\<forall>t\<in>set (tasks s).
        case checked t of None \<Rightarrow> True | Some url \<Rightarrow> admissible disabledLinks url)"

section \<open>Sample inputs\<close>

text \<open>Servers and parsers for single fetches.\<close>

definition unparsable :: "string \<Rightarrow> Document option" where
  "unparsable body = None"

definition empty_page :: "string \<Rightarrow> Document option" where
  "empty_page body = Some \<lparr>hrefs = [], title = body\<rparr>"

definition always_200 :: "nat \<Rightarrow> response" where
  "always_200 n = Status 200 ''<html>''"

definition always_503 :: "nat \<Rightarrow> response" where
  "always_503 n = Status 503 []"

definition third_200 :: "nat \<Rightarrow> response" where
  "third_200 n =
     (if n = 2 then Status 200 ''<html>''
      else if n = 1 then TransportError
      else Status 503 [])"

text \<open>
  A site whose home page links to \<open>/a\<close> twice (and to an anchor of its own), and
  whose other pages have no links. Every request succeeds at once; the body stands for
  the page of that URL.
\<close>

definition twice_linked :: World where
  "twice_linked =
     \<lparr>web_request_ok = (\<lambda>url. True),
      web_answer = (\<lambda>k url n. Status 200 url),
      web_parse = (\<lambda>body.
        if body = host then Some \<lparr>hrefs = [''/a'', ''#top'', ''/a''], title = ''Home''\<rparr>
        else Some \<lparr>hrefs = [], title = ''A''\<rparr>)\<rparr>"

text \<open>
  Two schedules: the main thread up to its first \<open>dequeue\<close>; and two iterations of the
  loop, then the two extractions, then the main thread to the end of \<open>main\<close>.
\<close>

definition to_dequeue :: "move list" where
  "to_dequeue = [MainThread, MainThread]"

definition to_completion :: "move list" where
  "to_completion =
     [MainThread, MainThread, MainThread, MainThread, MainThread,
      MainThread, MainThread, MainThread, MainThread, MainThread,
      Extraction 0, Extraction 0, MainThread, MainThread]"

definition no_file :: Sink where
  "no_file = \<lparr>result_txt = None, logged = []\<rparr>"

definition empty_file :: Sink where
  "empty_file = \<lparr>result_txt = Some [], logged = []\<rparr>"

text \<open>A crawl with one extraction running, at a link to \<open>/b\<close>.\<close>

definition one_task :: crawl where
  "one_task =
     \<lparr>queue = new_queue, crawled = add new_crawled host, sink = no_file,
      tasks = [\<lparr>todo = [''/b''], checked = None, page_title = ''A'',
                page_url = ''https://www.sjsu.edu/a''\<rparr>],
      control = AtLoop, fetches = [host, ''https://www.sjsu.edu/a''], dispatched = 1\<rparr>"

text \<open>Two URLs of the host with the same FNV-1a fingerprint.\<close>

definition collide_1 :: string where
  "collide_1 = ''https://www.sjsu.edu/xi0s8mfka2''"

definition collide_2 :: string where
  "collide_2 = ''https://www.sjsu.edu/l9k35yje6o''"

section \<open>Properties of the frontier\<close>







text \<open>
  C4, as amended. \<open>dequeue\<close> on a queue without elements ends in the runtime panic
  of the slice index (a crash of the process, not an error value handed to the
  caller); on a queue with at least one element it returns the head, and leaves the
  rest of the elements and the counter lowered by one.
\<close>

theorem dequeue_head:
  "(elements q = [] \<longrightarrow> dequeue q = Inl IndexOutOfRange) \<and>
   (\<forall>url rest. elements q = url # rest \<longrightarrow>
      dequeue q = Inr (url, q\<lparr>elements := rest, Queue.number := Queue.number q - 1\<rparr>))"
  by (simp add: dequeue_def)

theorem dequeue_head_witness:
  "dequeue \<lparr>totalQueued = 0, number = 0, elements = []\<rparr> = Inl IndexOutOfRange \<and>
   dequeue \<lparr>totalQueued = 2, number = 2, elements = [''a'', ''b'']\<rparr> =
     Inr (''a'', \<lparr>totalQueued = 2, number = 1, elements = [''b'']\<rparr>)"
  using dequeue_head [of "\<lparr>totalQueued = 0, number = 0, elements = []\<rparr>"]
        dequeue_head [of "\<lparr>totalQueued = 2, number = 2, elements = [''a'', ''b'']\<rparr>"]
  by simp

text \<open>
  C4 as stated fails: on the empty queue of \<open>main\<close> the call does not end with the
  error \<open>EmptyFrontier\<close> but with the panic.
\<close>

theorem dequeue_empty_counterexample:
  "dequeue new_queue = Inl IndexOutOfRange \<and> dequeue new_queue \<noteq> Inl EmptyFrontier"
  by (simp add: dequeue_def new_queue_def)




section \<open>Properties of the visited set\<close>

lemma hash_host: "hashUrl host = 11757807231080442059"
  by (simp add: hashUrl_def host_def)

lemma hash_a: "hashUrl ''https://www.sjsu.edu/a'' = 6170490914155370718"
  by (simp add: hashUrl_def)

lemma hash_b: "hashUrl ''https://www.sjsu.edu/b'' = 6170489814643742507"
  by (simp add: hashUrl_def)

lemma hash_collide_1: "hashUrl collide_1 = 7477905741895590914"
  by (simp add: hashUrl_def collide_1_def)

lemma hash_collide_2: "hashUrl collide_2 = 7477905741895590914"
  by (simp add: hashUrl_def collide_2_def)

lemma collide_distinct: "collide_1 \<noteq> collide_2"
  by (simp add: collide_1_def collide_2_def)

lemma crawled_step_keeps:
  "data c h = Some True \<Longrightarrow> data (crawled_step c a) h = Some True"
  by (cases a) (simp_all add: add_def)

lemma crawled_calls_keep:
  "data c h = Some True \<Longrightarrow> data (crawled_calls cs c) h = Some True"
  unfolding crawled_calls_def
  by (induction cs arbitrary: c) (simp_all add: crawled_step_keeps)

lemma contains_iff: "contains c url \<longleftrightarrow> data c (hashUrl url) = Some True"
  by (auto simp: contains_def split: option.splits)

text \<open>
  C8. \<open>contains(u)\<close> is true right after \<open>add(u)\<close> and after any further sequence
  \<open>cs\<close> of \<open>add\<close>, \<open>contains\<close> and \<open>size\<close> calls; more generally a URL that is contained
  stays contained and a fingerprint that is stored stays stored. Membership is a
  matter of the fingerprint alone: after \<open>add(u)\<close>, a URL \<open>v\<close> is contained exactly when
  its fingerprint is that of \<open>u\<close> or \<open>v\<close> was contained before, so a URL colliding with
  \<open>u\<close> is reported as contained from then on.
\<close>

theorem visited_monotone:
  "contains (add c u) u \<and>
   contains (crawled_calls cs (add c u)) u \<and>
   (contains c u \<longrightarrow> contains (crawled_calls cs c) u) \<and>
   (data c h = Some True \<longrightarrow> data (crawled_calls cs c) h = Some True) \<and>
   (contains (add c u) v \<longleftrightarrow> hashUrl v = hashUrl u \<or> contains c v) \<and>
   (hashUrl v = hashUrl u \<longrightarrow> contains (crawled_calls cs (add c u)) v)"
proof -
  have a: "data (add c u) (hashUrl u) = Some True"
    by (simp add: add_def)
  have b: "contains (add c u) v \<longleftrightarrow> hashUrl v = hashUrl u \<or> contains c v"
    by (simp add: contains_def add_def)
  from a have c: "hashUrl v = hashUrl u \<Longrightarrow> contains (crawled_calls cs (add c u)) v"
    by (simp add: contains_iff crawled_calls_keep)
  show ?thesis
    using a b c crawled_calls_keep [of _ _ cs] by (simp add: contains_iff)
qed

theorem visited_monotone_witness:
  "contains (add new_crawled host) host \<and>
   data (add new_crawled host) 11757807231080442059 = Some True \<and>
   hashUrl collide_2 = hashUrl collide_1 \<and>
   collide_2 \<noteq> collide_1 \<and>
   contains (crawled_calls [AddCall ''https://www.sjsu.edu/a'', ContainsCall collide_2, SizeCall]
     (add new_crawled host)) host \<and>
   data (crawled_calls [AddCall ''https://www.sjsu.edu/a'', ContainsCall collide_2, SizeCall]
     (add new_crawled host)) 11757807231080442059 = Some True \<and>
   contains (crawled_calls [AddCall ''https://www.sjsu.edu/a'', ContainsCall collide_2, SizeCall]
     (add (add new_crawled host) collide_1)) collide_2"
proof -
  let ?c = "add new_crawled host"
  let ?cs = "[AddCall ''https://www.sjsu.edu/a'', ContainsCall collide_2, SizeCall]"
  have d: "data ?c 11757807231080442059 = Some True"
    by (simp add: add_def hash_host)
  then have m: "contains ?c host"
    by (simp add: contains_iff hash_host)
  have h: "hashUrl collide_2 = hashUrl collide_1"
    by (simp add: hash_collide_1 hash_collide_2)
  from visited_monotone [of ?c host ?cs "11757807231080442059" collide_2] d m
  have 1: "contains (crawled_calls ?cs ?c) host"
    and 2: "data (crawled_calls ?cs ?c) 11757807231080442059 = Some True"
    by blast+
  from visited_monotone [of ?c collide_1 ?cs "11757807231080442059" collide_2] h
  have 3: "contains (crawled_calls ?cs (add ?c collide_1)) collide_2"
    by blast
  from d m h 1 2 3 collide_distinct show ?thesis
    by simp
qed



section \<open>Properties of the robots filter\<close>

lemma HasPrefix_prefix: "HasPrefix s pre \<longleftrightarrow> prefix pre s"
  unfolding HasPrefix_def
  by (metis append_eq_conv_conj prefix_def take_is_prefix)

lemma Contains_sublist: "Contains s substr \<longleftrightarrow> sublist substr s"
  by (induction s) (simp_all add: HasPrefix_prefix sublist_Cons_right)

lemma isAllowed_all: "isAllowed ds url \<longleftrightarrow> (\<forall>d\<in>set ds. \<not> Contains url d)"
  by (induction ds) simp_all

text \<open>
  C5. \<open>isAllowed(url)\<close> is true exactly when no collected path occurs in \<open>url\<close> as a
  substring. So a list containing \<open>/private\<close> disallows \<open>https://site/private/x\<close>, the
  list of \<open>/private\<close> alone allows \<open>https://site/public/x\<close>, and the empty list allows
  every URL; the list is empty when loading \<open>robots.txt\<close> failed.
\<close>

theorem isAllowed_substring:
  "(isAllowed disabledLinks url \<longleftrightarrow>
      (\<forall>d\<in>set disabledLinks. \<not> (\<exists>before after. url = before @ d @ after))) \<and>
   (''/private'' \<in> set disabledLinks \<longrightarrow> \<not> isAllowed disabledLinks ''https://site/private/x'') \<and>
   isAllowed [''/private''] ''https://site/public/x'' \<and>
   isAllowed [] url \<and>
   robotsTxtFetcher scan Fields None [] = []"
proof -
  have a: "isAllowed disabledLinks url \<longleftrightarrow>
      (\<forall>d\<in>set disabledLinks. \<not> (\<exists>before after. url = before @ d @ after))" for url
    by (simp add: isAllowed_all Contains_sublist sublist_def)
  have "''https://site/private/x'' = ''https://site'' @ ''/private'' @ ''/x''"
    by simp
  with a [of "''https://site/private/x''"]
  have b: "''/private'' \<in> set disabledLinks \<longrightarrow> \<not> isAllowed disabledLinks ''https://site/private/x''"
    by blast
  have c: "isAllowed [''/private''] ''https://site/public/x''"
    by (simp add: HasPrefix_def)
  from a [of url] b c show ?thesis
    by (simp add: robotsTxtFetcher_def)
qed

theorem isAllowed_substring_witness:
  "isAllowed [''/admin'', ''/private''] ''https://site/public/x'' \<and>
   \<not> (\<exists>before after. ''https://site/public/x'' = before @ ''/private'' @ after) \<and>
   ''/private'' \<in> set [''/admin'', ''/private''] \<and>
   \<not> isAllowed [''/admin'', ''/private''] ''https://site/private/x''"
proof -
  have a: "isAllowed [''/admin'', ''/private''] ''https://site/public/x''"
    by (simp add: HasPrefix_def)
  have b: "''/private'' \<in> set [''/admin'', ''/private'']"
    by simp
  from a b isAllowed_substring [of "[''/admin'', ''/private'']" "''https://site/public/x''"]
  show ?thesis by blast
qed

section \<open>Properties of the fetcher\<close>

lemma fetcher_from_calls:
  "snd (fetcher_from parse ok srv i n) \<le> n + (5 - i)"
proof (induction parse ok srv i n rule: fetcher_from.induct)
  case (1 parse ok srv i n)
  show ?case
  proof (cases "5 \<le> i")
    case True
    then show ?thesis by simp
  next
    case False
    note i = this
    show ?thesis
    proof (cases ok)
      case False
      with i "1.IH"(1) show ?thesis by simp
    next
      case True
      show ?thesis
      proof (cases "srv n")
        case TransportError
        with i True "1.IH"(2) show ?thesis by simp
      next
        case (Status code body)
        show ?thesis
        proof (cases "code = 200")
          case True
          with i \<open>ok\<close> Status show ?thesis
            by (cases "parse body") auto
        next
          case False
          with i \<open>ok\<close> Status "1.IH"(3) show ?thesis by simp
        qed
      qed
    qed
  qed
qed

lemma fetcher_from_no_request:
  "\<not> ok \<Longrightarrow> fetcher_from parse ok srv i n = (Delivered None, n)"
  by (induction parse ok srv i n rule: fetcher_from.induct) simp

lemma fetcher_from_failed:
  "ok \<Longrightarrow> \<not> is_200 (srv n) \<Longrightarrow> i < 5 \<Longrightarrow>
     fetcher_from parse ok srv i n = fetcher_from parse ok srv (i + 1) (n + 1)"
  by (cases "srv n") simp_all

lemma later_failures:
  assumes "\<forall>j<Suc k. \<not> is_200 (srv (n + j))"
  shows "\<not> is_200 (srv n)" and "\<forall>j<k. \<not> is_200 (srv (n + 1 + j))"
proof -
  from assms have "\<not> is_200 (srv (n + 0))" by blast
  then show "\<not> is_200 (srv n)" by simp
  show "\<forall>j<k. \<not> is_200 (srv (n + 1 + j))"
  proof (intro allI impI)
    fix j assume "j < k"
    then have "Suc j < Suc k" by simp
    with assms have "\<not> is_200 (srv (n + Suc j))" by blast
    then show "\<not> is_200 (srv (n + 1 + j))" by simp
  qed
qed

lemma fetcher_from_first_200:
  "ok \<Longrightarrow> i + k < 5 \<Longrightarrow> \<forall>j<k. \<not> is_200 (srv (n + j)) \<Longrightarrow> srv (n + k) = Status 200 body \<Longrightarrow>
     fetcher_from parse ok srv i n =
       (case parse body of None \<Rightarrow> Fatal | Some doc \<Rightarrow> Delivered (Some doc), n + k + 1)"
proof (induction k arbitrary: i n)
  case 0
  then show ?case by (simp split: option.splits)
next
  case (Suc k)
  note f = later_failures [OF Suc.prems(3)]
  from Suc.prems f(1)
  have "fetcher_from parse ok srv i n = fetcher_from parse ok srv (i + 1) (n + 1)"
    by (intro fetcher_from_failed) simp_all
  also have "\<dots> =
      (case parse body of None \<Rightarrow> Fatal | Some doc \<Rightarrow> Delivered (Some doc), n + 1 + k + 1)"
    using Suc.prems f(2) by (intro Suc.IH) simp_all
  finally show ?case by simp
qed

lemma fetcher_from_exhausted:
  "ok \<Longrightarrow> i + k = 5 \<Longrightarrow> \<forall>j<k. \<not> is_200 (srv (n + j)) \<Longrightarrow>
     fetcher_from parse ok srv i n = (Delivered None, n + k)"
proof (induction k arbitrary: i n)
  case 0
  then show ?case by simp
next
  case (Suc k)
  note f = later_failures [OF Suc.prems(3)]
  from Suc.prems f(1)
  have "fetcher_from parse ok srv i n = fetcher_from parse ok srv (i + 1) (n + 1)"
    by (intro fetcher_from_failed) simp_all
  also have "\<dots> = (Delivered None, n + 1 + k)"
    using Suc.prems f(2) by (intro Suc.IH) simp_all
  finally show ?case by simp
qed

text \<open>
  C2, as amended. \<open>fetcher\<close> calls \<open>client.Do\<close> at most 5 times. When the request
  number \<open>k\<close> (from 0, \<open>k < 5\<close>) is the first to return status 200, \<open>fetcher\<close> parses that
  body and stops after these \<open>k + 1\<close> requests: it delivers the document if the body
  parses, and \<open>log.Fatal\<close> ends the process, with nothing delivered, if it does not.
  When none of the 5 requests returns status 200 (transport error or another status),
  it delivers nil after exactly 5 requests. When \<open>http.NewRequest\<close> rejects the URL it
  delivers nil without any request.
\<close>

theorem fetcher_retries:
  "snd (fetcher parse ok srv) \<le> 5 \<and>
   (ok \<and> k < 5 \<and> (\<forall>j<k. \<not> is_200 (srv j)) \<and> srv k = Status 200 body \<longrightarrow>
      fetcher parse ok srv =
        (case parse body of None \<Rightarrow> Fatal | Some doc \<Rightarrow> Delivered (Some doc), k + 1)) \<and>
   (ok \<and> (\<forall>j<5. \<not> is_200 (srv j)) \<longrightarrow> fetcher parse ok srv = (Delivered None, 5)) \<and>
   (\<not> ok \<longrightarrow> fetcher parse ok srv = (Delivered None, 0))"
proof -
  have a: "snd (fetcher parse ok srv) \<le> 5"
    using fetcher_from_calls [of parse ok srv 0 0] by (simp add: fetcher_def)
  have b: "fetcher parse ok srv =
        (case parse body of None \<Rightarrow> Fatal | Some doc \<Rightarrow> Delivered (Some doc), k + 1)"
    if "ok" "k < 5" "\<forall>j<k. \<not> is_200 (srv j)" "srv k = Status 200 body"
    using fetcher_from_first_200 [of ok 0 k srv 0 body parse] that by (simp add: fetcher_def)
  have c: "fetcher parse ok srv = (Delivered None, 5)"
    if "ok" "\<forall>j<5. \<not> is_200 (srv j)"
    using fetcher_from_exhausted [of ok 0 5 srv 0 parse] that by (simp add: fetcher_def)
  have d: "fetcher parse ok srv = (Delivered None, 0)" if "\<not> ok"
    using fetcher_from_no_request [of ok parse srv 0 0] that by (simp add: fetcher_def)
  from a b c d show ?thesis by blast
qed

theorem fetcher_retries_witness:
  "fetcher empty_page True third_200 =
     (Delivered (Some \<lparr>hrefs = [], title = ''<html>''\<rparr>), 3) \<and>
   fetcher empty_page True always_503 = (Delivered None, 5) \<and>
   fetcher empty_page False always_200 = (Delivered None, 0) \<and>
   fetcher unparsable True always_200 = (Fatal, 1)"
proof -
  have a: "True \<and> (2::nat) < 5 \<and> (\<forall>j<2. \<not> is_200 (third_200 j)) \<and>
      third_200 2 = Status 200 ''<html>''"
    by (simp add: third_200_def)
  have b: "True \<and> (\<forall>j<5. \<not> is_200 (always_503 j))"
    by (simp add: always_503_def)
  have c: "True \<and> (0::nat) < 5 \<and> (\<forall>j<0. \<not> is_200 (always_200 j)) \<and>
      always_200 0 = Status 200 ''<html>''"
    by (simp add: always_200_def)
  from a fetcher_retries [of empty_page True third_200 2 "''<html>''"]
  have 1: "fetcher empty_page True third_200 =
      (Delivered (Some \<lparr>hrefs = [], title = ''<html>''\<rparr>), 3)"
    by (simp add: empty_page_def)
  from b fetcher_retries [of empty_page True always_503]
  have 2: "fetcher empty_page True always_503 = (Delivered None, 5)"
    by blast
  from fetcher_retries [of empty_page False always_200]
  have 3: "fetcher empty_page False always_200 = (Delivered None, 0)"
    by blast
  from c fetcher_retries [of unparsable True always_200 0 "''<html>''"]
  have 4: "fetcher unparsable True always_200 = (Fatal, 1)"
    by (simp add: unparsable_def)
  from 1 2 3 4 show ?thesis by simp
qed

text \<open>
  C2 as stated fails: a first request that returns status 200 with a body that does
  not parse delivers no document; the process is ended by \<open>log.Fatal\<close>.
\<close>

theorem fetcher_unparsable_counterexample:
  "fetcher unparsable True always_200 = (Fatal, 1) \<and>
   fst (fetcher unparsable True always_200) \<noteq> Delivered (unparsable ''<html>'')"
  by (simp add: fetcher_def unparsable_def always_200_def)

section \<open>Properties of link extraction and of the crawl loop\<close>

subsection \<open>Invariants of every interleaving\<close>

lemma run_invariant:
  assumes "\<And>m s s'. P s \<Longrightarrow> step W dl m s = Some s' \<Longrightarrow> P s'"
    and "P s"
    and "run W dl ms s = Some s'"
  shows "P s'"
  using assms(2,3)
proof (induction ms arbitrary: s)
  case Nil
  then show ?case by simp
next
  case (Cons m ms)
  from Cons.prems(2) obtain s1 where
    a: "step W dl m s = Some s1" and b: "run W dl ms s1 = Some s'"
    by (auto split: option.splits)
  from assms(1) [OF Cons.prems(1) a] have "P s1" .
  from Cons.IH [OF this b] show ?case .
qed

lemma task_step_main:
  "control (task_step dl k s) = control s \<and>
   crawled (task_step dl k s) = crawled s \<and>
   fetches (task_step dl k s) = fetches s \<and>
   dispatched (task_step dl k s) = dispatched s \<and>
   size_queue (queue s) \<le> size_queue (queue (task_step dl k s))"
  by (simp add: task_step_def Let_def size_queue_def enqueue_def
        split: option.splits list.splits)

lemma seeding_main:
  "crawled (seeding W dl fs) = add new_crawled host \<and>
   (control (seeding W dl fs) = AtLoop \<or> control (seeding W dl fs) = Exited) \<and>
   tasks (seeding W dl fs) = [] \<and>
   dispatched (seeding W dl fs) = 0"
  by (simp add: seeding_def Let_def split: fetch_outcome.splits option.splits prod.splits)

lemma seeding_queue:
  "queue (seeding W dl fs) = new_queue \<or>
   (\<exists>doc. queue (seeding W dl fs) = fst (parser dl doc new_queue host (add new_crawled host) fs))"
  by (simp add: seeding_def Let_def case_prod_unfold split: fetch_outcome.splits option.splits)
     blast

lemma within_ceiling_task:
  "within_ceiling s \<Longrightarrow> within_ceiling (task_step dl k s)"
  using task_step_main [of dl k s] unfolding within_ceiling_def by auto

lemma within_ceiling_main:
  assumes "within_ceiling s" and "main_step W s = Some s'"
  shows "within_ceiling s'"
proof (cases "control s")
  case AtLoop
  with assms show ?thesis
    by (auto simp: main_step_def within_ceiling_def split: if_splits)
next
  case AtCeiling
  with assms show ?thesis
    by (auto simp: main_step_def within_ceiling_def split: if_splits)
next
  case AtDequeue
  with assms show ?thesis
    by (auto simp: main_step_def within_ceiling_def split: sum.splits prod.splits)
next
  case (AtAdd url)
  with assms show ?thesis
    by (auto simp: main_step_def within_ceiling_def size_crawled_def add_def)
next
  case (AtFetch url)
  with assms show ?thesis
    by (auto simp: main_step_def within_ceiling_def split: fetch_outcome.splits option.splits)
next
  case AtWait
  with assms show ?thesis
    by (auto simp: main_step_def within_ceiling_def split: if_splits)
next
  case Finished
  with assms show ?thesis by (simp add: main_step_def)
next
  case Exited
  with assms show ?thesis by (simp add: main_step_def)
next
  case Crashed
  with assms show ?thesis by (simp add: main_step_def)
qed

lemma within_ceiling_step:
  "within_ceiling s \<Longrightarrow> step W dl m s = Some s' \<Longrightarrow> within_ceiling s'"
  by (cases m)
     (auto simp: step_def within_ceiling_main within_ceiling_task split: if_splits)

lemma within_ceiling_seeding: "within_ceiling (seeding W dl fs)"
  using seeding_main [of W dl fs]
  by (auto simp: within_ceiling_def size_crawled_def add_def new_crawled_def)

lemma trimmed_host: "TrimSuffix host ''/'' = ''https://www.sjsu.edu''"
  by (simp add: TrimSuffix_def HasSuffix_def host_def)

lemma parser_each_cases:
  "parser_each dl c q href = q \<or>
   (\<exists>url. parser_each dl c q href = enqueue q url \<and>
      parser_href href = Some url \<and> admitted dl c url)"
  by (simp add: parser_each_def split: option.splits)

lemma parser_elements:
  "\<exists>urls. elements (foldl (parser_each dl c) q hs) = elements q @ urls \<and>
     (\<forall>url\<in>set urls. admitted dl c url)"
proof (induction hs arbitrary: q)
  case Nil
  then show ?case by simp
next
  case (Cons h hs)
  from Cons.IH [of "parser_each dl c q h"] obtain urls where
    a: "elements (foldl (parser_each dl c) (parser_each dl c q h) hs) =
          elements (parser_each dl c q h) @ urls" and
    b: "\<forall>url\<in>set urls. admitted dl c url"
    by blast
  from parser_each_cases [of dl c q h] show ?case
  proof
    assume "parser_each dl c q h = q"
    with a b show ?thesis by auto
  next
    assume "\<exists>url. parser_each dl c q h = enqueue q url \<and>
      parser_href h = Some url \<and> admitted dl c url"
    then obtain u where
      u: "parser_each dl c q h = enqueue q u" "admitted dl c u"
      by blast
    with a have "elements (foldl (parser_each dl c) q (h # hs)) = elements q @ (u # urls)"
      by (simp add: enqueue_def)
    moreover from b u have "\<forall>url\<in>set (u # urls). admitted dl c url"
      by simp
    ultimately show ?thesis by blast
  qed
qed

lemma set_update_cases: "x \<in> set (xs[k := y]) \<Longrightarrow> x = y \<or> x \<in> set xs"
  by (metis insert_iff set_update_subset_insert subsetD)

lemma frontier_admissible_task:
  assumes "frontier_admissible dl s" and "k < length (tasks s)"
  shows "frontier_admissible dl (task_step dl k s)"
proof -
  let ?t = "tasks s ! k"
  from assms(2) have t: "?t \<in> set (tasks s)" by simp
  from assms(1) have q: "\<forall>url\<in>set (elements (queue s)). admissible dl url"
    and ts: "\<forall>t\<in>set (tasks s).
      case checked t of None \<Rightarrow> True | Some url \<Rightarrow> admissible dl url"
    by (simp_all add: frontier_admissible_def)
  show ?thesis
  proof (cases "checked ?t")
    case (Some url)
    with ts t have "admissible dl url"
      by force
    with q ts Some show ?thesis
      unfolding frontier_admissible_def
      by (auto simp: task_step_def Let_def enqueue_def dest!: set_update_cases)
  next
    case None
    note n = this
    show ?thesis
    proof (cases "todo ?t")
      case Nil
      with q ts n show ?thesis
        unfolding frontier_admissible_def
        by (auto simp: task_step_def Let_def dest: in_set_takeD in_set_dropD)
    next
      case (Cons href rest)
      with q ts n show ?thesis
        unfolding frontier_admissible_def
        by (auto simp: task_step_def Let_def admitted_def admissible_def
              split: option.splits dest!: set_update_cases)
    qed
  qed
qed

lemma frontier_admissible_main:
  assumes "frontier_admissible dl s" and "main_step W s = Some s'"
  shows "frontier_admissible dl s'"
proof (cases "control s")
  case AtDequeue
  with assms show ?thesis
    unfolding frontier_admissible_def
    by (auto simp: main_step_def dequeue_def split: list.splits)
next
  case (AtFetch url)
  with assms show ?thesis
    unfolding frontier_admissible_def
    by (auto simp: main_step_def split: fetch_outcome.splits option.splits)
qed (use assms in \<open>auto simp: main_step_def frontier_admissible_def split: if_splits\<close>)

lemma frontier_admissible_step:
  "frontier_admissible dl s \<Longrightarrow> step W dl m s = Some s' \<Longrightarrow> frontier_admissible dl s'"
  by (cases m)
     (auto simp: step_def frontier_admissible_main frontier_admissible_task split: if_splits)

lemma frontier_admissible_seeding: "frontier_admissible dl (seeding W dl fs)"
proof -
  have "\<forall>url\<in>set (elements (fst (parser dl doc new_queue u c fs))). admissible dl url"
    for doc u c
    using parser_elements [of dl c new_queue "hrefs doc"]
    by (auto simp: parser_def new_queue_def admitted_def admissible_def)
  with seeding_queue [of W dl fs]
  have "\<forall>url\<in>set (elements (queue (seeding W dl fs))). admissible dl url"
    by (auto simp: new_queue_def)
  with seeding_main [of W dl fs] show ?thesis
    unfolding frontier_admissible_def by simp
qed

lemma writeToFile_absent:
  "result_txt fs = None \<Longrightarrow>
     writeToFile t u fs = fs\<lparr>logged := logged fs @ write_errors\<rparr>"
  by (simp add: writeToFile_def)

lemma sink_absent_step:
  "result_txt (sink s) = None \<Longrightarrow> step W dl m s = Some s' \<Longrightarrow> result_txt (sink s') = None"
proof (cases m)
  case MainThread
  assume "result_txt (sink s) = None" "step W dl m s = Some s'"
  with MainThread show ?thesis
    by (cases "control s")
       (auto simp: step_def main_step_def
             split: if_splits sum.splits prod.splits fetch_outcome.splits option.splits)
next
  case (Extraction k)
  assume "result_txt (sink s) = None" "step W dl m s = Some s'"
  with Extraction show ?thesis
    by (auto simp: step_def task_step_def Let_def writeToFile_absent
             split: if_splits option.splits list.splits)
qed

lemma sink_absent_seeding:
  "result_txt fs = None \<Longrightarrow> result_txt (sink (seeding W dl fs)) = None"
  by (simp add: seeding_def Let_def parser_def writeToFile_absent
           split: fetch_outcome.splits option.splits)

subsection \<open>The sample site, run\<close>

lemma href_a: "parser_href ''/a'' = Some ''https://www.sjsu.edu/a''"
  by (simp add: parser_href_def HasPrefix_def TrimSuffix_def HasSuffix_def host_def)

lemma href_b: "parser_href ''/b'' = Some ''https://www.sjsu.edu/b''"
  by (simp add: parser_href_def HasPrefix_def TrimSuffix_def HasSuffix_def host_def)

lemma href_top: "parser_href ''#top'' = None"
  by (simp add: parser_href_def HasPrefix_def)

lemma admitted_a:
  "admitted [] c ''https://www.sjsu.edu/a'' = (data c 6170490914155370718 \<noteq> Some True)"
  by (auto simp add: admitted_def HasPrefix_def host_def contains_def hash_a split: option.splits)

lemma fetch_twice_linked:
  "fst (fetcher (web_parse twice_linked) (web_request_ok twice_linked url)
         (web_answer twice_linked k url)) =
     Delivered (web_parse twice_linked url)"
  by (simp add: fetcher_def twice_linked_def)

lemma parse_host:
  "web_parse twice_linked host = Some \<lparr>hrefs = [''/a'', ''#top'', ''/a''], title = ''Home''\<rparr>"
  by (simp add: twice_linked_def)

lemma parse_a:
  "web_parse twice_linked ''https://www.sjsu.edu/a'' = Some \<lparr>hrefs = [], title = ''A''\<rparr>"
  by (simp add: twice_linked_def host_def)

lemma seeded:
  "seeding twice_linked [] fs =
     \<lparr>queue = \<lparr>totalQueued = 2, number = 2,
                elements = [''https://www.sjsu.edu/a'', ''https://www.sjsu.edu/a'']\<rparr>,
      crawled = \<lparr>data = [11757807231080442059 \<mapsto> True], number = 1\<rparr>,
      sink = writeToFile ''Home'' host fs,
      tasks = [], control = AtLoop, fetches = [host], dispatched = 0\<rparr>"
  by (simp add: seeding_def fetch_twice_linked parse_host parser_def parser_each_def href_a
     href_top admitted_a new_queue_def new_crawled_def add_def hash_host enqueue_def)

lemma ran_to_dequeue:
  "run twice_linked [] to_dequeue (seeding twice_linked [] fs) =
     Some \<lparr>queue = \<lparr>totalQueued = 2, number = 2,
                      elements = [''https://www.sjsu.edu/a'', ''https://www.sjsu.edu/a'']\<rparr>,
            crawled = \<lparr>data = [11757807231080442059 \<mapsto> True], number = 1\<rparr>,
            sink = writeToFile ''Home'' host fs,
            tasks = [], control = AtDequeue, fetches = [host], dispatched = 0\<rparr>"
  unfolding seeded to_dequeue_def
  by (simp add: step_def ended_def main_step_def size_queue_def size_crawled_def)

lemma ran:
  "run twice_linked [] to_completion (seeding twice_linked [] fs) =
     Some \<lparr>queue = \<lparr>totalQueued = 2, number = 0, elements = []\<rparr>,
            crawled = \<lparr>data = [11757807231080442059 \<mapsto> True, 6170490914155370718 \<mapsto> True],
                         number = 3\<rparr>,
            sink = writeToFile ''A'' ''https://www.sjsu.edu/a''
                     (writeToFile ''A'' ''https://www.sjsu.edu/a'' (writeToFile ''Home'' host fs)),
            tasks = [], control = Finished,
            fetches = [host, ''https://www.sjsu.edu/a'', ''https://www.sjsu.edu/a''],
            dispatched = 1\<rparr>"
  unfolding seeded to_completion_def
  by (simp add: step_def ended_def main_step_def task_step_def size_queue_def size_crawled_def
       dequeue_def add_def hash_a fetch_twice_linked parse_a)

subsection \<open>Link admission\<close>

text \<open>
  C3. For one \<open>href\<close> handled by the function \<open>parser\<close> passes to \<open>Each\<close>, with the
  visited set \<open>c\<close> as it is at the admission test: an \<open>href\<close> starting with \<open>#\<close>,
  \<open>javascript:\<close> or \<open>mailto:\<close> is not enqueued; an \<open>href\<close> starting with \<open>/\<close> is
  rewritten to \<open>host\<close> without its trailing slash (\<open>https://www.sjsu.edu\<close>) followed by
  the \<open>href\<close>, and that URL is what the admission test sees; any other \<open>href\<close> that does
  not start with \<open>http\<close> is dropped, and so is any that does not start with \<open>host\<close>
  (\<open>https://www.sjsu.edu/\<close>), a relative link among them; whenever something is
  enqueued, it is one URL, it starts with \<open>host\<close>, it is allowed and it was not
  contained in \<open>c\<close>. The same holds for
  all URLs a whole \<open>parser\<close> call appends to the queue, and for the URL an interleaved
  extraction keeps after its admission test; and in every state the crawl can reach,
  under every interleaving, every URL in the queue starts with \<open>host\<close> and is allowed.
\<close>

theorem extractor_admission:
  "(HasPrefix href ''#'' \<or> HasPrefix href ''javascript:'' \<or> HasPrefix href ''mailto:'' \<longrightarrow>
      parser_each disabledLinks c q href = q) \<and>
   TrimSuffix host ''/'' = ''https://www.sjsu.edu'' \<and>
   (HasPrefix href ''/'' \<longrightarrow>
      parser_each disabledLinks c q href =
        (if admitted disabledLinks c (TrimSuffix host ''/'' @ href)
         then enqueue q (TrimSuffix host ''/'' @ href) else q)) \<and>
   (\<not> HasPrefix href ''/'' \<and> \<not> HasPrefix href ''http'' \<longrightarrow>
      parser_each disabledLinks c q href = q) \<and>
   (\<not> HasPrefix href ''/'' \<and> \<not> HasPrefix href host \<longrightarrow>
      parser_each disabledLinks c q href = q) \<and>
   (parser_each disabledLinks c q href \<noteq> q \<longrightarrow>
      (\<exists>url. parser_each disabledLinks c q href = enqueue q url \<and>
         prefix host url \<and> isAllowed disabledLinks url \<and> \<not> contains c url)) \<and>
   (\<exists>urls. elements (fst (parser disabledLinks doc q currUrl c fs)) = elements q @ urls \<and>
      (\<forall>url\<in>set urls. prefix host url \<and> isAllowed disabledLinks url \<and> \<not> contains c url)) \<and>
   (k < length (tasks s) \<and> checked (tasks s ! k) = None \<and> todo (tasks s ! k) = href # rest \<longrightarrow>
      checked (tasks (task_step disabledLinks k s) ! k) =
        (case parser_href href of
           None \<Rightarrow> None
         | Some url \<Rightarrow> if admitted disabledLinks (crawled s) url then Some url else None)) \<and>
   (run W disabledLinks ms (seeding W disabledLinks fs') = Some s' \<longrightarrow>
      (\<forall>url\<in>set (elements (queue s')). prefix host url \<and> isAllowed disabledLinks url))"
proof -
  have a: "HasPrefix href ''#'' \<or> HasPrefix href ''javascript:'' \<or> HasPrefix href ''mailto:'' \<longrightarrow>
      parser_each disabledLinks c q href = q"
    by (simp add: parser_each_def parser_href_def)
  have sl: "HasPrefix href ''/'' \<Longrightarrow>
      \<not> (HasPrefix href ''#'' \<or> HasPrefix href ''javascript:'' \<or> HasPrefix href ''mailto:'')"
    by (cases href) (auto simp: HasPrefix_def)
  have b: "HasPrefix href ''/'' \<longrightarrow>
      parser_each disabledLinks c q href =
        (if admitted disabledLinks c (TrimSuffix host ''/'' @ href)
         then enqueue q (TrimSuffix host ''/'' @ href) else q)"
    using sl by (simp add: parser_each_def parser_href_def)
  have d: "\<not> HasPrefix href ''/'' \<and> \<not> HasPrefix href ''http'' \<longrightarrow>
      parser_each disabledLinks c q href = q"
    by (simp add: parser_each_def parser_href_def)
  have d': "\<not> HasPrefix href ''/'' \<and> \<not> HasPrefix href host \<longrightarrow>
      parser_each disabledLinks c q href = q"
    by (simp add: parser_each_def parser_href_def admitted_def)
  have e: "parser_each disabledLinks c q href \<noteq> q \<longrightarrow>
      (\<exists>url. parser_each disabledLinks c q href = enqueue q url \<and>
         prefix host url \<and> isAllowed disabledLinks url \<and> \<not> contains c url)"
    using parser_each_cases [of disabledLinks c q href]
    by (auto simp: admitted_def HasPrefix_prefix)
  have f: "\<exists>urls. elements (fst (parser disabledLinks doc q currUrl c fs)) = elements q @ urls \<and>
      (\<forall>url\<in>set urls. prefix host url \<and> isAllowed disabledLinks url \<and> \<not> contains c url)"
    using parser_elements [of disabledLinks c q "hrefs doc"]
    by (auto simp: parser_def admitted_def HasPrefix_prefix)
  have g: "k < length (tasks s) \<and> checked (tasks s ! k) = None \<and>
      todo (tasks s ! k) = href # rest \<longrightarrow>
      checked (tasks (task_step disabledLinks k s) ! k) =
        (case parser_href href of
           None \<Rightarrow> None
         | Some url \<Rightarrow> if admitted disabledLinks (crawled s) url then Some url else None)"
    by (simp add: task_step_def Let_def split: option.splits)
  have h: "run W disabledLinks ms (seeding W disabledLinks fs') = Some s' \<longrightarrow>
      (\<forall>url\<in>set (elements (queue s')). prefix host url \<and> isAllowed disabledLinks url)"
  proof
    assume r: "run W disabledLinks ms (seeding W disabledLinks fs') = Some s'"
    have "frontier_admissible disabledLinks s'"
      using frontier_admissible_step frontier_admissible_seeding r
      by (rule run_invariant [where P = "frontier_admissible disabledLinks"])
    then show "\<forall>url\<in>set (elements (queue s')). prefix host url \<and> isAllowed disabledLinks url"
      by (simp add: frontier_admissible_def admissible_def HasPrefix_prefix)
  qed
  from a trimmed_host b d d' e f g h show ?thesis
    by blast
qed

theorem extractor_admission_witness:
  "parser_each [''/private''] (add new_crawled host) new_queue ''#top'' = new_queue \<and>
   parser_each [''/private''] (add new_crawled host) new_queue ''/b'' =
     enqueue new_queue ''https://www.sjsu.edu/b'' \<and>
   parser_each [''/private''] (add new_crawled host) new_queue ''about.html'' = new_queue \<and>
   parser_each [''/private''] (add new_crawled host) new_queue ''http://other.test/z'' =
     new_queue \<and>
   checked (tasks (task_step [''/private''] 0 one_task) ! 0) = Some ''https://www.sjsu.edu/b'' \<and>
   prefix host ''https://www.sjsu.edu/a'' \<and>
   isAllowed [] ''https://www.sjsu.edu/a''"
proof -
  let ?dl = "[''/private'']"
  let ?c = "add new_crawled host"
  have adm: "admitted ?dl ?c ''https://www.sjsu.edu/b''"
    by (simp add: admitted_def HasPrefix_def host_def contains_def hash_b add_def
          new_crawled_def hash_host [unfolded host_def])
  have 1: "parser_each ?dl ?c new_queue ''#top'' = new_queue"
    using extractor_admission [where href = "''#top''" and disabledLinks = ?dl
        and c = ?c and q = new_queue]
    by (simp add: HasPrefix_def)
  have 2: "parser_each ?dl ?c new_queue ''/b'' = enqueue new_queue ''https://www.sjsu.edu/b''"
    using extractor_admission [where href = "''/b''" and disabledLinks = ?dl
        and c = ?c and q = new_queue] adm
    by (simp add: HasPrefix_def)
  have 3: "parser_each ?dl ?c new_queue ''about.html'' = new_queue"
    using extractor_admission [where href = "''about.html''" and disabledLinks = ?dl
        and c = ?c and q = new_queue]
    by (simp add: HasPrefix_def)
  have x: "parser_each ?dl ?c new_queue ''http://other.test/z'' = new_queue"
    using extractor_admission [where href = "''http://other.test/z''" and disabledLinks = ?dl
        and c = ?c and q = new_queue]
    by (simp add: HasPrefix_def host_def)
  have t: "0 < length (tasks one_task) \<and> checked (tasks one_task ! 0) = None \<and>
      todo (tasks one_task ! 0) = ''/b'' # []"
    by (simp add: one_task_def)
  have c: "crawled one_task = ?c"
    by (simp add: one_task_def)
  from t extractor_admission [where href = "''/b''" and disabledLinks = ?dl and k = 0
      and s = one_task and rest = "[]"]
  have 4: "checked (tasks (task_step ?dl 0 one_task) ! 0) = Some ''https://www.sjsu.edu/b''"
    by (simp add: href_b c adm)
  from extractor_admission [where disabledLinks = "[]" and W = twice_linked
      and ms = to_dequeue and fs' = no_file] ran_to_dequeue [of no_file]
  have 5: "prefix host ''https://www.sjsu.edu/a'' \<and> isAllowed [] ''https://www.sjsu.edu/a''"
    by simp
  from 1 2 3 x 4 5 show ?thesis
    by blast
qed

subsection \<open>The ceiling\<close>

text \<open>
  C6. In every state \<open>s\<close> the crawl can reach, under every interleaving of the main
  thread and the extractions: the visited count is at most 500, so it exceeds the
  ceiling by no more than the number of extractions dispatched in the current (at
  completion: the last) iteration of the loop; the body of the loop is entered (the
  main thread is at its \<open>dequeue\<close>) only with \<open>queue.size() > 0\<close> and
  \<open>crawled.size() < 500\<close>; and from the top of the loop the main thread goes on to the
  ceiling test only if \<open>queue.size() > 0\<close>, and from there to \<open>dequeue\<close> only if
  \<open>crawled.size() < 500\<close>, leaving the loop for \<open>wg.Wait()\<close> otherwise.
\<close>

theorem ceiling_never_exceeded:
  assumes "run W disabledLinks ms (seeding W disabledLinks fs) = Some s"
  shows "size_crawled (crawled s) \<le> 500 \<and>
         size_crawled (crawled s) \<le> 500 + int (dispatched s) \<and>
         (control s = AtDequeue \<longrightarrow>
            0 < size_queue (queue s) \<and> size_crawled (crawled s) < 500) \<and>
         step W disabledLinks MainThread (s\<lparr>control := AtLoop\<rparr>) =
           Some (s\<lparr>control := if 0 < size_queue (queue s) then AtCeiling else AtWait\<rparr>) \<and>
         step W disabledLinks MainThread (s\<lparr>control := AtCeiling\<rparr>) =
           Some (s\<lparr>control := if size_crawled (crawled s) < 500 then AtDequeue else AtWait\<rparr>)"
proof -
  have "within_ceiling s"
    using within_ceiling_step within_ceiling_seeding assms
    by (rule run_invariant [where P = within_ceiling])
  then have a: "size_crawled (crawled s) \<le> 500"
    and b: "control s = AtDequeue \<longrightarrow>
      0 < size_queue (queue s) \<and> size_crawled (crawled s) < 500"
    by (simp_all add: within_ceiling_def)
  have c: "step W disabledLinks MainThread (s\<lparr>control := AtLoop\<rparr>) =
           Some (s\<lparr>control := if 0 < size_queue (queue s) then AtCeiling else AtWait\<rparr>)"
    by (simp add: step_def ended_def main_step_def)
  have d: "step W disabledLinks MainThread (s\<lparr>control := AtCeiling\<rparr>) =
           Some (s\<lparr>control := if size_crawled (crawled s) < 500 then AtDequeue else AtWait\<rparr>)"
    by (simp add: step_def ended_def main_step_def)
  from a have "size_crawled (crawled s) \<le> 500 + int (dispatched s)"
    by simp
  with a b c d show ?thesis by blast
qed

theorem ceiling_never_exceeded_witness:
  "(\<exists>s. run twice_linked [] to_dequeue (seeding twice_linked [] no_file) = Some s \<and>
      control s = AtDequeue \<and> 0 < size_queue (queue s) \<and> size_crawled (crawled s) < 500) \<and>
   (\<exists>s. run twice_linked [] to_completion (seeding twice_linked [] no_file) = Some s \<and>
      control s = Finished \<and> size_crawled (crawled s) = 3 \<and> dispatched s = 1 \<and>
      size_crawled (crawled s) \<le> 500 + int (dispatched s))"
proof -
  from ceiling_never_exceeded [OF ran_to_dequeue [of no_file]]
  have 1: "\<exists>s. run twice_linked [] to_dequeue (seeding twice_linked [] no_file) = Some s \<and>
      control s = AtDequeue \<and> 0 < size_queue (queue s) \<and> size_crawled (crawled s) < 500"
    unfolding ran_to_dequeue by simp
  from ceiling_never_exceeded [OF ran [of no_file]]
  have 2: "\<exists>s. run twice_linked [] to_completion (seeding twice_linked [] no_file) = Some s \<and>
      control s = Finished \<and> size_crawled (crawled s) = 3 \<and> dispatched s = 1 \<and>
      size_crawled (crawled s) \<le> 500 + int (dispatched s)"
    unfolding ran by (simp add: size_crawled_def)
  from 1 2 show ?thesis ..
qed

subsection \<open>The output file\<close>

text \<open>
  C10. \<open>writeToFile\<close> opens \<open>result.txt\<close> without a create flag. While the file does
  not exist, a call writes nothing and leaves the file missing; its two errors are
  logged and it returns. So if the file is missing when the program starts, it is
  missing in every state the crawl reaches, whatever the site and the interleaving:
  no record is kept and the program never creates the file. The crawl goes on
  regardless: the control state after seeding does not depend on the file, and a step
  of an extraction (its write included) never changes where the main thread is. When
  the file exists, a call appends exactly \<open>{\n\ttitle: <title>,\n\turl: <url>\n}\<close>,
  with nothing after the closing brace.
\<close>

theorem sink_never_created:
  "(result_txt fs = None \<longrightarrow>
      writeToFile t u fs =
        fs\<lparr>logged := logged fs @ write_errors\<rparr>) \<and>
   (result_txt fs = None \<and> run W disabledLinks ms (seeding W disabledLinks fs) = Some s \<longrightarrow>
      result_txt (sink s) = None) \<and>
   control (seeding W disabledLinks fs) = control (seeding W disabledLinks fs') \<and>
   control (task_step disabledLinks k s') = control s' \<and>
   (\<forall>content. result_txt fs = Some content \<longrightarrow>
      writeToFile t u fs =
        fs\<lparr>result_txt := Some (content @
          ''{'' @ [CHR 0x0A, CHR 0x09] @ ''title: '' @ t @ '','' @
          [CHR 0x0A, CHR 0x09] @ ''url: '' @ u @ [CHR 0x0A] @ ''}'')\<rparr>)"
proof -
  have b: "result_txt (sink s) = None"
    if "result_txt fs = None" "run W disabledLinks ms (seeding W disabledLinks fs) = Some s"
    using sink_absent_step sink_absent_seeding [OF that(1)] that(2)
    by (rule run_invariant [where P = "\<lambda>s. result_txt (sink s) = None"])
  have c: "control (seeding W disabledLinks fs) = control (seeding W disabledLinks fs')"
    by (simp add: seeding_def Let_def case_prod_unfold split: fetch_outcome.splits option.splits)
  have d: "control (task_step disabledLinks k s') = control s'"
    using task_step_main [of disabledLinks k s'] by simp
  have e: "\<forall>content. result_txt fs = Some content \<longrightarrow>
      writeToFile t u fs =
        fs\<lparr>result_txt := Some (content @
          ''{'' @ [CHR 0x0A, CHR 0x09] @ ''title: '' @ t @ '','' @
          [CHR 0x0A, CHR 0x09] @ ''url: '' @ u @ [CHR 0x0A] @ ''}'')\<rparr>"
    by (simp add: writeToFile_def record_block_def)
  from writeToFile_absent [of fs t u] b c d e show ?thesis
    by blast
qed

theorem sink_never_created_witness:
  "result_txt no_file = None \<and>
   writeToFile ''Home'' host no_file =
     \<lparr>result_txt = None, logged = write_errors\<rparr> \<and>
   (\<exists>s. run twice_linked [] to_completion (seeding twice_linked [] no_file) = Some s \<and>
      control s = Finished \<and> result_txt (sink s) = None) \<and>
   result_txt empty_file = Some [] \<and>
   writeToFile ''Home'' host empty_file =
     \<lparr>result_txt = Some (''{'' @ [CHR 0x0A, CHR 0x09] @ ''title: Home,'' @
         [CHR 0x0A, CHR 0x09] @ ''url: https://www.sjsu.edu/'' @ [CHR 0x0A] @ ''}''),
      logged = []\<rparr>"
proof -
  have n: "result_txt no_file = None"
    by (simp add: no_file_def)
  have f: "result_txt empty_file = Some []"
    by (simp add: empty_file_def)
  from n sink_never_created [where fs = no_file and t = "''Home''" and u = host]
  have 1: "writeToFile ''Home'' host no_file =
     \<lparr>result_txt = None, logged = write_errors\<rparr>"
    by (simp add: no_file_def)
  let ?r = "run twice_linked [] to_completion (seeding twice_linked [] no_file)"
  have r: "?r = Some (the ?r)" and fin: "control (the ?r) = Finished"
    by (simp_all add: ran)
  from n r sink_never_created [where fs = no_file and W = twice_linked
      and disabledLinks = "[]" and ms = to_completion and s = "the ?r"]
  have "result_txt (sink (the ?r)) = None"
    by blast
  with r fin
  have 2: "\<exists>s. ?r = Some s \<and> control s = Finished \<and> result_txt (sink s) = None"
    by blast
  from f sink_never_created [where fs = empty_file and t = "''Home''" and u = host]
  have 3: "writeToFile ''Home'' host empty_file =
     \<lparr>result_txt = Some (''{'' @ [CHR 0x0A, CHR 0x09] @ ''title: Home,'' @
         [CHR 0x0A, CHR 0x09] @ ''url: https://www.sjsu.edu/'' @ [CHR 0x0A] @ ''}''),
      logged = []\<rparr>"
    by (simp add: empty_file_def host_def)
  from n f 1 2 3 show ?thesis
    by blast
qed

subsection \<open>Double crawl\<close>

text \<open>
  C1 does not hold of the program. Admission asks only whether a URL has been marked
  as crawled, and a URL is marked when it is dequeued, so a URL linked twice before its
  first dequeue is enqueued twice and fetched twice. On the sample site, whose home
  page links to \<open>/a\<close> twice, the run to completion hands
  \<open>https://www.sjsu.edu/a\<close> to \<open>fetcher\<close> twice.
\<close>

theorem double_crawl:
  "map_option (\<lambda>s. (control s, fetches s, elements (queue s), size_crawled (crawled s)))
     (run twice_linked [] to_completion (seeding twice_linked [] empty_file)) =
   Some (Finished, [host, ''https://www.sjsu.edu/a'', ''https://www.sjsu.edu/a''], [], 3)"
  by (simp add: ran size_crawled_def)

end
